theory Spec2Isabelle
  imports Complex_Main
begin

section \<open>The iteration driver (openmdao/lib/drivers/iterate.py)\<close>

text \<open>
  \<^verbatim>\<open>Iterate.execute\<close> runs the workflow once, then loops: pass the last value of
  \<^verbatim>\<open>loop_end\<close> to \<^verbatim>\<open>loop_start\<close>, run the workflow, read \<^verbatim>\<open>loop_end\<close> again, and
  stop when two successive values differ by less than \<^verbatim>\<open>tolerance\<close>.

  The values are numpy floats in the source. Their type \<open>'v\<close> and the operations line
  72 applies to them are parameters of the model: the subtraction, \<^verbatim>\<open>abs\<close>, the
  comparison \<^verbatim>\<open><\<close>, and the \<^verbatim>\<open>0.0\<close> that \<^verbatim>\<open>zeros\<close> fills the array with. What is proved of
  the model for every such \<open>'v\<close> and every such operations holds of float64 with its
  rounding, its infinities and its NaN.
\<close>

record 'v arith =
  float_sub :: "'v \<Rightarrow> 'v \<Rightarrow> 'v"
  float_abs :: "'v \<Rightarrow> 'v"
  float_less :: "'v \<Rightarrow> 'v \<Rightarrow> bool"
  float_zero :: 'v

text \<open>
  The operations of the real numbers, for the examples below. On the values of the
  examples (the differences 0 and 1 against the tolerance 0.00001) float64 computes
  the same.
\<close>

definition exact :: "real arith" where
  "exact = \<lparr> float_sub = (-), float_abs = abs, float_less = (<), float_zero = 0 \<rparr>"

text \<open>
  The collaborators of the driver are not part of the file: the workflow behind
  \<^verbatim>\<open>run_iteration()\<close>, the two expressions \<^verbatim>\<open>loop_end\<close> and \<^verbatim>\<open>loop_start\<close>, and whoever
  sets \<^verbatim>\<open>_stop\<close>. They are parameters of the model. \<open>'w\<close> is the state of everything
  they read and write (the variables of the model and the \<^verbatim>\<open>_stop\<close> flag), \<open>'e\<close> the
  errors a workflow may raise. A run of the workflow returns with a new state (\<open>Inr\<close>)
  or raises an error and leaves a state behind (\<open>Inl\<close>); the two expressions and the
  flag do not raise. \<^verbatim>\<open>max_iteration\<close> and \<^verbatim>\<open>tolerance\<close> are inputs of the driver that the
  collaborators do not change during \<^verbatim>\<open>execute\<close>.
\<close>

record ('w, 'e, 'v) collab =
  run_iteration :: "'w \<Rightarrow> ('e \<times> 'w) + 'w"
  loop_end_evaluate :: "'w \<Rightarrow> 'v"
  loop_start_set :: "'v \<Rightarrow> 'w \<Rightarrow> 'w"
  stop :: "'w \<Rightarrow> bool"

text \<open>
  The calls the driver makes to its collaborators, in order: a run of the workflow,
  \<^verbatim>\<open>loop_end.evaluate()\<close> with the value it returned, \<^verbatim>\<open>loop_start.set(v)\<close> with the value
  written. The trace is instrumentation: the source has no such field; it makes "the
  workflow was not run", "nothing was written to \<^verbatim>\<open>loop_start\<close>" and "the values
  observed" statements about the model.
\<close>

datatype 'v event = RunIteration | LoopEndEvaluate 'v | LoopStartSet 'v

text \<open>
  The exceptions of \<^verbatim>\<open>execute\<close>: \<^verbatim>\<open>RunStopped\<close> ('Stop requested'), \<^verbatim>\<open>RuntimeError\<close>
  ('Max iterations exceeded without convergence.'), what numpy raises for
  \<^verbatim>\<open>zeros(n)\<close> with \<open>n < 0\<close> (\<^verbatim>\<open>ValueError\<close>) and for an index out of range
  (\<^verbatim>\<open>IndexError\<close>), and an error of the workflow, which \<^verbatim>\<open>execute\<close> does not catch.
\<close>

datatype 'e exn = RunStopped | RuntimeError | ValueError | IndexError | WorkflowError 'e

text \<open>
  The driver object: the two inputs \<^verbatim>\<open>max_iteration\<close> and \<^verbatim>\<open>tolerance\<close>, the attributes
  \<^verbatim>\<open>self.history\<close> and \<^verbatim>\<open>self.current_iteration\<close>, the state of the collaborators, and
  the trace.
\<close>

record ('w, 'v) iterate =
  max_iteration :: int
  tolerance :: 'v
  history :: "'v list"
  current_iteration :: nat
  world :: 'w
  trace :: "'v event list"

text \<open>
  \<^verbatim>\<open>Iterate.__init__\<close>, over the reals: the trait defaults 25 and 0.00001, \<^verbatim>\<open>zeros(0)\<close>
  and 0.
\<close>

definition Iterate_init :: "'w \<Rightarrow> ('w, real) iterate" where
  "Iterate_init w =
     \<lparr> max_iteration = 25, tolerance = 1 / 100000, history = [],
       current_iteration = 0, world = w, trace = [] \<rparr>"

definition record_event :: "'v event \<Rightarrow> ('w, 'v) iterate \<Rightarrow> ('w, 'v) iterate" where
  "record_event ev self = self\<lparr>trace := trace self @ [ev]\<rparr>"

text \<open>
  One pass through the body of \<^verbatim>\<open>while unconverged:\<close> (lines 51 to 73), on the local
  array \<^verbatim>\<open>history\<close> (here \<open>hist\<close>) and the driver. The pass ends at the bottom of the
  body (\<open>Continue\<close>), at \<^verbatim>\<open>break\<close> (\<open>Break\<close>) or in an exception (\<open>Raise\<close>).
\<close>

datatype ('w, 'e, 'v) outcome =
    Continue "'v list" "('w, 'v) iterate"
  | Break "'v list" "('w, 'v) iterate"
  | Raise "'e exn" "('w, 'v) iterate"

definition step ::
  "'v arith \<Rightarrow> ('w, 'e, 'v) collab \<Rightarrow> 'v list \<Rightarrow> ('w, 'v) iterate \<Rightarrow> ('w, 'e, 'v) outcome" where
  "step A C hist self =
     (if stop C (world self) then Raise RunStopped self
      else if max_iteration self - 1 \<le> int (current_iteration self) then
        Raise RuntimeError (self\<lparr>history := take (current_iteration self + 1) hist\<rparr>)
      else if length hist \<le> current_iteration self then Raise IndexError self
      else
        let val0 = hist ! current_iteration self;
            self1 = record_event (LoopStartSet val0)
                      (self\<lparr>world := loop_start_set C val0 (world self)\<rparr>)
        in case run_iteration C (world self1) of
             Inl (e, w) \<Rightarrow>
               Raise (WorkflowError e) ((record_event RunIteration self1)\<lparr>world := w\<rparr>)
           | Inr w \<Rightarrow>
               let self2 = (record_event RunIteration self1)
                             \<lparr>world := w, current_iteration := current_iteration self1 + 1\<rparr>;
                   v = loop_end_evaluate C (world self2);
                   self3 = record_event (LoopEndEvaluate v) self2
               in if length hist \<le> current_iteration self3 then Raise IndexError self3
                  else
                    let hist1 = hist[current_iteration self3 := v];
                        val1 = hist1 ! current_iteration self3
                    in if float_less A (float_abs A (float_sub A val1 val0)) (tolerance self3)
                       then Break hist1 self3
                       else Continue hist1 self3)"

lemma step_Continue:
  "step A C hist self = Continue hist' self' \<Longrightarrow>
     max_iteration self' = max_iteration self \<and>
     current_iteration self' = current_iteration self + 1 \<and>
     int (current_iteration self) < max_iteration self - 1"
  by (auto simp: step_def Let_def record_event_def split: if_splits sum.splits)

text \<open>
  How \<^verbatim>\<open>execute\<close> ends: it returns, or it raises; either way the driver is left in
  some state.
\<close>

datatype ('w, 'e, 'v) result =
  Return "('w, 'v) iterate" | Raised "'e exn" "('w, 'v) iterate"

text \<open>
  The while loop with the assignment after it (line 78). Each pass that continues
  has incremented \<^verbatim>\<open>current_iteration\<close> below \<^verbatim>\<open>max_iteration - 1\<close>, so the loop ends.
\<close>

function loop ::
  "'v arith \<Rightarrow> ('w, 'e, 'v) collab \<Rightarrow> 'v list \<Rightarrow> ('w, 'v) iterate \<Rightarrow> ('w, 'e, 'v) result" where
  "loop A C hist self =
     (case step A C hist self of
        Raise e self' \<Rightarrow> Raised e self'
      | Break hist' self' \<Rightarrow>
          Return (self'\<lparr>history := take (current_iteration self' + 1) hist'\<rparr>)
      | Continue hist' self' \<Rightarrow> loop A C hist' self')"
  by pat_completeness auto
termination
  by (relation "measure (\<lambda>(A, C, hist, self).
        nat (max_iteration self - int (current_iteration self)))")
     (auto dest!: step_Continue)

declare loop.simps [simp del]

text \<open>
  \<^verbatim>\<open>Iterate.execute\<close>. \<^verbatim>\<open>zeros(self.max_iteration)\<close> raises for a negative size, and
  \<^verbatim>\<open>history[0] = ...\<close> raises for the empty array, after the right-hand side has
  been evaluated.
\<close>

definition execute ::
  "'v arith \<Rightarrow> ('w, 'e, 'v) collab \<Rightarrow> ('w, 'v) iterate \<Rightarrow> ('w, 'e, 'v) result" where
  "execute A C self =
     (case run_iteration C (world self) of
        Inl (e, w) \<Rightarrow>
          Raised (WorkflowError e) ((record_event RunIteration self)\<lparr>world := w\<rparr>)
      | Inr w \<Rightarrow>
          let self1 = (record_event RunIteration self)\<lparr>world := w, current_iteration := 0\<rparr>
          in if max_iteration self1 < 0 then Raised ValueError self1
             else
               let hist = replicate (nat (max_iteration self1)) (float_zero A);
                   v = loop_end_evaluate C (world self1);
                   self2 = record_event (LoopEndEvaluate v) self1
               in if length hist \<le> 0 then Raised IndexError self2
                  else loop A C (hist[0 := v]) self2)"

text \<open>
  The driver as \<^verbatim>\<open>execute\<close> leaves it, whether a pass ended at \<^verbatim>\<open>break\<close>, the values
  that \<^verbatim>\<open>loop_end.evaluate()\<close> returned along a trace, and the number of runs of the
  workflow in it.
\<close>

fun final :: "('w, 'e, 'v) result \<Rightarrow> ('w, 'v) iterate" where
  "final (Return self) = self"
| "final (Raised e self) = self"

fun is_break :: "('w, 'e, 'v) outcome \<Rightarrow> bool" where
  "is_break (Break hist self) = True"
| "is_break (Continue hist self) = False"
| "is_break (Raise e self) = False"

fun observed :: "'v event list \<Rightarrow> 'v list" where
  "observed [] = []"
| "observed (LoopEndEvaluate v # es) = v # observed es"
| "observed (e # es) = observed es"

definition runs :: "'v event list \<Rightarrow> nat" where
  "runs es = length (filter (\<lambda>e. e = RunIteration) es)"

subsection \<open>Workflows on a source and a sink variable\<close>

text \<open>
  A model with the two variables the expressions refer to and the stop flag.
  \<open>identity_wf\<close> is the workflow \<^verbatim>\<open>sink := source\<close>; \<open>plus_one_wf\<close> computes
  \<^verbatim>\<open>sink := source + 1\<close> and so never converges for a tolerance of at most 1;
  \<open>failing_wf\<close> computes \<^verbatim>\<open>sink := source + 1\<close> and raises once the source has
  reached 1.
\<close>

record 'v loopvars =
  source :: 'v
  sink :: 'v
  stop_requested :: bool

definition endpoints ::
  "('v loopvars \<Rightarrow> ('e \<times> 'v loopvars) + 'v loopvars) \<Rightarrow> ('v loopvars, 'e, 'v) collab" where
  "endpoints workflow =
     \<lparr> run_iteration = workflow, loop_end_evaluate = sink,
       loop_start_set = (\<lambda>v w. w\<lparr>source := v\<rparr>), stop = stop_requested \<rparr>"

definition identity_wf :: "('v loopvars, unit, 'v) collab" where
  "identity_wf = endpoints (\<lambda>w. Inr (w\<lparr>sink := source w\<rparr>))"

definition plus_one_wf :: "(real loopvars, unit, real) collab" where
  "plus_one_wf = endpoints (\<lambda>w. Inr (w\<lparr>sink := source w + 1\<rparr>))"

definition failing_wf :: "(real loopvars, unit, real) collab" where
  "failing_wf =
     endpoints (\<lambda>w. if 1 \<le> source w then Inl ((), w)
                    else Inr (w\<lparr>sink := source w + 1\<rparr>))"

text \<open>
  Drivers to run them on: a new one with \<^verbatim>\<open>max_iteration = 3\<close>; one that holds the
  history \<open>[3, 3]\<close> of an earlier execution; one in the loop with
  \<^verbatim>\<open>max_iteration = 3\<close>, before its first pass, the sink at 3; and one in the loop with
  \<^verbatim>\<open>max_iteration = 1\<close> whose stop flag is set.
\<close>

definition driver3 :: "(real loopvars, real) iterate" where
  "driver3 =
     (Iterate_init \<lparr>source = 0, sink = 0, stop_requested = False\<rparr>)\<lparr>max_iteration := 3\<rparr>"

definition used_driver :: "(real loopvars, real) iterate" where
  "used_driver =
     (Iterate_init \<lparr>source = 0, sink = 0, stop_requested = False\<rparr>)\<lparr>history := [3, 3]\<rparr>"

definition looping_driver :: "(real loopvars, real) iterate" where
  "looping_driver =
     (Iterate_init \<lparr>source = 3, sink = 3, stop_requested = False\<rparr>)
       \<lparr>max_iteration := 3, trace := [RunIteration, LoopEndEvaluate 3]\<rparr>"

definition stopped_driver :: "(real loopvars, real) iterate" where
  "stopped_driver =
     (Iterate_init \<lparr>source = 3, sink = 3, stop_requested = True\<rparr>)
       \<lparr>max_iteration := 1, trace := [RunIteration, LoopEndEvaluate 3]\<rparr>"

section \<open>The variable tree (openmdao/main/vartree.py)\<close>

text \<open>
  A \<^verbatim>\<open>VariableTree\<close> with what is below it: its \<^verbatim>\<open>_iotype\<close> (\<open>None\<close>, or a string such as
  \<^verbatim>\<open>'in'\<close> and \<^verbatim>\<open>'out'\<close>), whether \<^verbatim>\<open>_input_trait_modified\<close> is registered with
  \<^verbatim>\<open>on_trait_change\<close>, and its \<^verbatim>\<open>__dict__\<close>, whose values are other objects (\<open>Inl\<close>) or
  \<^verbatim>\<open>VariableTree\<close>s (\<open>Inr\<close>). The parent is a back-reference that does not own (a weak
  reference of \<^verbatim>\<open>Container\<close>, which is not in the file): it is no \<^verbatim>\<open>VariableTree\<close> among
  the values of \<^verbatim>\<open>__dict__\<close>, and it is modelled apart, below.

  \<^verbatim>\<open>on_trait_change\<close> belongs to the Traits library: with \<^verbatim>\<open>remove=False\<close> the handler is
  registered, with \<^verbatim>\<open>remove=True\<close> it is not registered afterwards.
\<close>

datatype 'a vartree =
  VariableTree (iotype: "string option") (listening: bool)
               (dict: "(string \<times> ('a + 'a vartree)) list")

text \<open>
  The setter of the property \<^verbatim>\<open>iotype\<close> (lines 20 to 32). The loop assigns through
  the property of each child, so a child whose \<^verbatim>\<open>_iotype\<close> is \<^verbatim>\<open>val\<close> already is left
  as it is. The test \<^verbatim>\<open>k is not self\<close> compares a key with the object and is always
  true.
\<close>

fun set_iotype :: "string option \<Rightarrow> 'a vartree \<Rightarrow> 'a vartree" where
  "set_iotype val (VariableTree io l d) =
     (if val \<noteq> io then
        VariableTree val (val = Some ''in'')
          (map (\<lambda>(k, v). (k, case v of Inl x \<Rightarrow> Inl x
                               | Inr t \<Rightarrow> Inr (set_iotype val t))) d)
      else VariableTree io l d)"

text \<open>
  \<^verbatim>\<open>VariableTree.__init__\<close>: \<^verbatim>\<open>_iotype = None\<close>, no handler registered, then the
  setter.
\<close>

definition VariableTree_init :: "string option \<Rightarrow> 'a vartree" where
  "VariableTree_init io = set_iotype io (VariableTree None False [])"

text \<open>
  The \<^verbatim>\<open>VariableTree\<close>s among the values of a node's \<^verbatim>\<open>__dict__\<close>, all those below a node,
  the node with them, and the other values of the tree with the keys that lead to
  them.
\<close>

definition children :: "'a vartree \<Rightarrow> 'a vartree list" where
  "children t = concat (map (\<lambda>(k, v). case v of Inl x \<Rightarrow> [] | Inr c \<Rightarrow> [c]) (dict t))"

fun descendants :: "'a vartree \<Rightarrow> 'a vartree list" where
  "descendants (VariableTree io l d) =
     concat (map (\<lambda>(k, v). case v of Inl x \<Rightarrow> []
                            | Inr t \<Rightarrow> t # descendants t) d)"

definition nodes :: "'a vartree \<Rightarrow> 'a vartree list" where
  "nodes t = t # descendants t"

fun leaves :: "'a vartree \<Rightarrow> (string list \<times> 'a) list" where
  "leaves (VariableTree io l d) =
     concat (map (\<lambda>(k, v). case v of Inl x \<Rightarrow> [([k], x)]
                            | Inr t \<Rightarrow> map (\<lambda>(p, x). (k # p, x)) (leaves t)) d)"

text \<open>
  What is above a \<^verbatim>\<open>VariableTree\<close>: \<^verbatim>\<open>parent\<close> is \<^verbatim>\<open>None\<close>, an object that is not a
  \<^verbatim>\<open>VariableTree\<close> (a component, \<open>'c\<close>), or a \<^verbatim>\<open>VariableTree\<close> with its own name, iotype
  and parent. A chain of parents is finite in this model.
\<close>

datatype 'c container =
    NoneType
  | Component 'c
  | VarTree (vt_name: string) (vt_iotype: "string option") (vt_parent: "'c container")

record ('a, 'c) variable_tree =
  name :: string
  parent :: "'c container"
  node :: "'a vartree"

text \<open>
  \<^verbatim>\<open>tree_rooted\<close> (lines 34 to 43). \<open>trait\<close> is \<^verbatim>\<open>parent.trait(name)\<close> of a parent that is
  not a \<^verbatim>\<open>VariableTree\<close>: \<open>None\<close> when there is no such trait, else the trait's
  \<^verbatim>\<open>iotype\<close>; \<^verbatim>\<open>None\<close> and the empty string are false in \<^verbatim>\<open>if t and t.iotype\<close>, and
  a parent that is an object is true in \<^verbatim>\<open>if self.parent\<close>. The decorator \<^verbatim>\<open>rbac\<close> only
  annotates the method.
  \<open>super_tree_rooted\<close> is \<^verbatim>\<open>Container.tree_rooted\<close>, which is not in the file.
\<close>

definition tree_rooted ::
  "('c \<Rightarrow> string \<Rightarrow> string option option) \<Rightarrow>
   (('a, 'c) variable_tree \<Rightarrow> ('a, 'c) variable_tree) \<Rightarrow>
   ('a, 'c) variable_tree \<Rightarrow> ('a, 'c) variable_tree" where
  "tree_rooted trait super_tree_rooted self =
     super_tree_rooted
       (case parent self of
          NoneType \<Rightarrow> self
        | VarTree n io p \<Rightarrow> self\<lparr>node := set_iotype io (node self)\<rparr>
        | Component c \<Rightarrow>
            (case trait c (name self) of
               None \<Rightarrow> self
             | Some None \<Rightarrow> self
             | Some (Some io) \<Rightarrow>
                 if io \<noteq> [] then self\<lparr>node := set_iotype (Some io) (node self)\<rparr>
                 else self))"

text \<open>
  The loop of \<^verbatim>\<open>_input_trait_modified\<close> (lines 48 to 51), after its first pass, which
  always runs since \<^verbatim>\<open>self\<close> is a \<^verbatim>\<open>VariableTree\<close>: \<open>vt\<close> is the name of \<^verbatim>\<open>vt\<close>, \<open>p\<close> is
  \<^verbatim>\<open>p\<close>; the result is the two at the end of the loop.
\<close>

fun walk_up :: "string \<Rightarrow> 'c container \<Rightarrow> string \<times> 'c container" where
  "walk_up vt (VarTree n io p) = walk_up n p"
| "walk_up vt NoneType = (vt, NoneType)"
| "walk_up vt (Component c) = (vt, Component c)"

text \<open>Python's \<^verbatim>\<open>str.startswith\<close>.\<close>

definition startswith :: "string \<Rightarrow> string \<Rightarrow> bool" where
  "startswith s prefix = (take (length prefix) s = prefix)"

text \<open>
  \<^verbatim>\<open>_input_trait_modified\<close> (lines 45 to 53). The result is the list of calls
  \<^verbatim>\<open>p._input_trait_modified(p, vt.name, vt, vt)\<close> made: the receiver and the name.
\<close>

definition input_trait_modified ::
  "('a, 'c) variable_tree \<Rightarrow> string \<Rightarrow> ('c \<times> string) list" where
  "input_trait_modified self nm =
     (if startswith nm ''_'' then []
      else case walk_up (name self) (parent self) of
             (vt, NoneType) \<Rightarrow> []
           | (vt, Component c) \<Rightarrow> [(c, vt)]
           | (vt, VarTree n io p) \<Rightarrow> [])"

text \<open>
  A trait \<open>nm\<close> of the node changes: Traits calls the handler when it is registered.
\<close>

definition trait_changed ::
  "('a, 'c) variable_tree \<Rightarrow> string \<Rightarrow> ('c \<times> string) list" where
  "trait_changed self nm =
     (if listening (node self) then input_trait_modified self nm else [])"

text \<open>
  The names from a node up to its last \<^verbatim>\<open>VariableTree\<close> ancestor, the node's own name
  first, and the object above that ancestor.
\<close>

fun tree_names :: "'c container \<Rightarrow> string list" where
  "tree_names (VarTree n io p) = n # tree_names p"
| "tree_names NoneType = []"
| "tree_names (Component c) = []"

fun owner :: "'c container \<Rightarrow> 'c option" where
  "owner (VarTree n io p) = owner p"
| "owner NoneType = None"
| "owner (Component c) = Some c"

subsection \<open>Trees and nodes to run the functions on\<close>

text \<open>
  \<open>mixed_tree\<close>: a node \<^verbatim>\<open>'out'\<close> with a child \<^verbatim>\<open>a\<close> that is \<^verbatim>\<open>'in'\<close>, whose child \<^verbatim>\<open>b\<close> is
  \<^verbatim>\<open>'out'\<close>, as three assignments leave it: \<^verbatim>\<open>'out'\<close> to the root, \<^verbatim>\<open>'in'\<close> to \<^verbatim>\<open>a\<close>, \<^verbatim>\<open>'out'\<close> to
  \<^verbatim>\<open>b\<close>. \<open>out_tree\<close>: the same shape, \<^verbatim>\<open>'out'\<close> at the root and at \<^verbatim>\<open>a\<close>, \<^verbatim>\<open>None\<close> at \<^verbatim>\<open>b\<close>.
  \<open>in_below_tree\<close>: the same shape, \<^verbatim>\<open>'out'\<close> at the root, \<^verbatim>\<open>'in'\<close> at \<^verbatim>\<open>a\<close> and at \<^verbatim>\<open>b\<close>.
\<close>

definition mixed_tree :: "nat vartree" where
  "mixed_tree =
     VariableTree (Some ''out'') False
       [(''x'', Inl 1),
        (''a'', Inr (VariableTree (Some ''in'') True
           [(''b'', Inr (VariableTree (Some ''out'') False [(''y'', Inl 2)]))]))]"

definition out_tree :: "nat vartree" where
  "out_tree =
     VariableTree (Some ''out'') False
       [(''x'', Inl 1),
        (''a'', Inr (VariableTree (Some ''out'') False
           [(''b'', Inr (VariableTree None False [(''y'', Inl 2)]))]))]"

definition in_below_tree :: "nat vartree" where
  "in_below_tree =
     VariableTree (Some ''out'') False
       [(''x'', Inl 1),
        (''a'', Inr (VariableTree (Some ''in'') True
           [(''b'', Inr (VariableTree (Some ''in'') True [(''y'', Inl 2)]))]))]"

text \<open>
  A listening node \<^verbatim>\<open>c\<close> below \<^verbatim>\<open>a.b\<close> of a component; a listening node \<^verbatim>\<open>b\<close> below a
  tree \<^verbatim>\<open>a\<close> that has no parent; a node \<^verbatim>\<open>'in'\<close> below a tree that is \<^verbatim>\<open>'out'\<close>; a node
  \<^verbatim>\<open>'in'\<close> that is the variable \<^verbatim>\<open>v\<close> of a component; and a component whose trait \<^verbatim>\<open>v\<close>
  has the iotype \<^verbatim>\<open>'out'\<close>.
\<close>

definition nested_node :: "(nat, string) variable_tree" where
  "nested_node =
     \<lparr> name = ''c'',
       parent = VarTree ''b'' (Some ''in'') (VarTree ''a'' (Some ''in'') (Component ''comp'')),
       node = VariableTree (Some ''in'') True [(''x'', Inl 1)] \<rparr>"

definition unowned_node :: "(nat, string) variable_tree" where
  "unowned_node =
     \<lparr> name = ''b'', parent = VarTree ''a'' (Some ''in'') NoneType,
       node = VariableTree (Some ''in'') True [(''x'', Inl 1)] \<rparr>"

definition in_node_below_out :: "(nat, string) variable_tree" where
  "in_node_below_out =
     \<lparr> name = ''b'', parent = VarTree ''a'' (Some ''out'') (Component ''comp''),
       node = VariableTree (Some ''in'') True [(''x'', Inl 1)] \<rparr>"

definition in_node_of_component :: "(nat, string) variable_tree" where
  "in_node_of_component =
     \<lparr> name = ''v'', parent = Component ''comp'',
       node = VariableTree (Some ''in'') True [(''x'', Inl 1)] \<rparr>"

definition comp_trait :: "string \<Rightarrow> string \<Rightarrow> string option option" where
  "comp_trait c nm = (if nm = ''v'' then Some (Some ''out'') else None)"

section \<open>Properties of the iteration driver\<close>

subsection \<open>A pass through the loop body, case by case\<close>

lemma take_Suc_update: "n < length xs \<Longrightarrow> take (Suc n) (xs[n := v]) = take n xs @ [v]"
  by (simp add: take_Suc_conv_app_nth)

lemma observed_append: "observed (es @ fs) = observed es @ observed fs"
  by (induction es rule: observed.induct) simp_all

lemma step_stop: "stop C (world self) \<Longrightarrow> step A C hist self = Raise RunStopped self"
  by (simp add: step_def)

lemma step_max:
  "\<not> stop C (world self) \<Longrightarrow> max_iteration self - 1 \<le> int (current_iteration self) \<Longrightarrow>
   step A C hist self =
     Raise RuntimeError (self\<lparr>history := take (current_iteration self + 1) hist\<rparr>)"
  by (simp add: step_def)

lemma step_fail:
  "\<not> stop C (world self) \<Longrightarrow> int (current_iteration self) < max_iteration self - 1 \<Longrightarrow>
   current_iteration self < length hist \<Longrightarrow>
   run_iteration C (loop_start_set C (hist ! current_iteration self) (world self))
     = Inl (e, w) \<Longrightarrow>
   step A C hist self = Raise (WorkflowError e)
     (self\<lparr>world := w,
           trace := trace self @ [LoopStartSet (hist ! current_iteration self), RunIteration]\<rparr>)"
  by (simp add: step_def Let_def record_event_def)

lemma step_run:
  "\<not> stop C (world self) \<Longrightarrow> int (current_iteration self) < max_iteration self - 1 \<Longrightarrow>
   Suc (current_iteration self) < length hist \<Longrightarrow>
   run_iteration C (loop_start_set C (hist ! current_iteration self) (world self)) = Inr w \<Longrightarrow>
   step A C hist self =
     (if float_less A
           (float_abs A (float_sub A (loop_end_evaluate C w) (hist ! current_iteration self)))
           (tolerance self)
      then Break else Continue)
       (hist[Suc (current_iteration self) := loop_end_evaluate C w])
       (self\<lparr>world := w, current_iteration := Suc (current_iteration self),
             trace := trace self @ [LoopStartSet (hist ! current_iteration self), RunIteration,
                                     LoopEndEvaluate (loop_end_evaluate C w)]\<rparr>)"
  by (simp add: step_def Let_def record_event_def)

subsection \<open>Convergence\<close>

text \<open>
  C1. Take a pass of the loop that reaches the comparison: no stop is requested,
  \<^verbatim>\<open>current_iteration < max_iteration - 1\<close>, the local array has the \<^verbatim>\<open>max_iteration\<close>
  slots that \<^verbatim>\<open>zeros\<close> gave it, and the workflow, run on the source set to
  \<open>val0 = hist ! current_iteration\<close>, returns and leaves the state \<open>w\<close>. Let \<open>val1\<close> be the
  value of \<^verbatim>\<open>loop_end\<close> in \<open>w\<close>; the pass stores it in the next slot of the local array.
  The pass ends at \<^verbatim>\<open>break\<close> if and only if \<^verbatim>\<open>abs(val1 - val0) < tolerance\<close>, with the
  subtraction, \<^verbatim>\<open>abs\<close> and the strict \<^verbatim>\<open><\<close> of the floats. When it does, \<^verbatim>\<open>execute\<close> returns
  with \<^verbatim>\<open>current_iteration\<close> incremented and with \<^verbatim>\<open>self.history\<close> the values of the local
  array up to \<open>val0\<close> followed by \<open>val1\<close>: \<^verbatim>\<open>current_iteration + 1\<close> entries. When it does
  not, the pass ends at the bottom of the body, with \<^verbatim>\<open>current_iteration\<close> incremented,
  \<^verbatim>\<open>self.history\<close> not assigned and the workflow's state \<open>w\<close>, and the loop goes on from
  there: \<^verbatim>\<open>execute\<close> does not return in this pass.
\<close>

theorem step_converges_iff:
  assumes "\<not> stop C (world self)"
    and "int (current_iteration self) < max_iteration self - 1"
    and "length hist = nat (max_iteration self)"
    and "run_iteration C (loop_start_set C (hist ! current_iteration self) (world self)) = Inr w"
  shows "(is_break (step A C hist self) \<longleftrightarrow>
            float_less A
              (float_abs A (float_sub A (loop_end_evaluate C w) (hist ! current_iteration self)))
              (tolerance self)) \<and>
         (is_break (step A C hist self) \<longrightarrow>
            (\<exists>self'. loop A C hist self = Return self' \<and>
               current_iteration self' = current_iteration self + 1 \<and>
               history self' =
                 take (current_iteration self + 1) hist @ [loop_end_evaluate C w] \<and>
               length (history self') = current_iteration self' + 1)) \<and>
         (\<not> is_break (step A C hist self) \<longrightarrow>
            (\<exists>hist' self'. step A C hist self = Continue hist' self' \<and>
               loop A C hist self = loop A C hist' self' \<and>
               hist' = hist[current_iteration self + 1 := loop_end_evaluate C w] \<and>
               current_iteration self' = current_iteration self + 1 \<and>
               history self' = history self \<and> world self' = w \<and>
               max_iteration self' = max_iteration self \<and> tolerance self' = tolerance self))"
proof -
  from assms(2,3) have len: "Suc (current_iteration self) < length hist" by linarith
  show ?thesis
    by (simp add: loop.simps[of A C hist self] step_run[OF assms(1,2) len assms(4)] len
          take_Suc_update)
qed

theorem step_converges_iff_witness:
  "is_break (step exact identity_wf [3, 0, 0] looping_driver) \<and>
   (\<exists>self'. loop exact identity_wf [3, 0, 0] looping_driver = Return self' \<and>
      current_iteration self' = 1 \<and> history self' = [3, 3] \<and>
      length (history self') = 2) \<and>
   \<not> is_break (step exact plus_one_wf [3, 0, 0] looping_driver) \<and>
   (\<exists>self'. step exact plus_one_wf [3, 0, 0] looping_driver = Continue [3, 4, 0] self' \<and>
      loop exact plus_one_wf [3, 0, 0] looping_driver = loop exact plus_one_wf [3, 4, 0] self' \<and>
      current_iteration self' = 1 \<and> history self' = [])"
proof -
  have h1: "\<not> stop identity_wf (world looping_driver)"
    and h2: "int (current_iteration looping_driver) < max_iteration looping_driver - 1"
    and h3: "length [3, 0, 0 :: real] = nat (max_iteration looping_driver)"
    and h4: "run_iteration identity_wf
               (loop_start_set identity_wf ([3, 0, 0] ! current_iteration looping_driver)
                 (world looping_driver))
             = Inr \<lparr>source = 3, sink = 3, stop_requested = False\<rparr>"
    by (simp_all add: looping_driver_def Iterate_init_def identity_wf_def endpoints_def)
  have g1: "\<not> stop plus_one_wf (world looping_driver)"
    and g4: "run_iteration plus_one_wf
               (loop_start_set plus_one_wf ([3, 0, 0] ! current_iteration looping_driver)
                 (world looping_driver))
             = Inr \<lparr>source = 3, sink = 4, stop_requested = False\<rparr>"
    by (simp_all add: looping_driver_def Iterate_init_def plus_one_wf_def endpoints_def)
  have a: "loop_end_evaluate identity_wf \<lparr>source = 3, sink = 3, stop_requested = False\<rparr>
             = (3::real)"
    and b: "loop_end_evaluate plus_one_wf \<lparr>source = 3, sink = 4, stop_requested = False\<rparr> = 4"
    and c: "current_iteration looping_driver = 0" "tolerance looping_driver = 1 / 100000"
      "history looping_driver = []"
    by (simp_all add: looping_driver_def Iterate_init_def identity_wf_def plus_one_wf_def
          endpoints_def)
  from step_converges_iff[OF h1 h2 h3 h4, of exact]
  have i: "is_break (step exact identity_wf [3, 0, 0] looping_driver) \<and>
     (\<exists>self'. loop exact identity_wf [3, 0, 0] looping_driver = Return self' \<and>
        current_iteration self' = 1 \<and> history self' = [3, 3] \<and>
        length (history self') = 2)"
    by (auto simp add: a c exact_def)
  from step_converges_iff[OF g1 h2 h3 g4, of exact]
  have p: "\<not> is_break (step exact plus_one_wf [3, 0, 0] looping_driver) \<and>
     (\<exists>self'. step exact plus_one_wf [3, 0, 0] looping_driver = Continue [3, 4, 0] self' \<and>
        loop exact plus_one_wf [3, 0, 0] looping_driver
          = loop exact plus_one_wf [3, 4, 0] self' \<and>
        current_iteration self' = 1 \<and> history self' = [])"
    by (auto simp add: b c exact_def)
  from i p show ?thesis by blast
qed

text \<open>
  The workflow \<^verbatim>\<open>sink := source\<close>, for any floats: when the difference of the source's
  value with itself compares below the tolerance (as \<^verbatim>\<open>abs(3.0 - 3.0) < 0.00001\<close> does in
  float64), \<^verbatim>\<open>execute\<close> returns after the first run and one pass.
\<close>

lemma identity_converges_any_floats:
  assumes "2 \<le> max_iteration self" and "\<not> stop_requested (world self)"
    and "float_less A (float_abs A (float_sub A (source (world self)) (source (world self))))
           (tolerance self)"
  shows "execute A identity_wf self =
     Return (self\<lparr> history := [source (world self), source (world self)],
                   current_iteration := 1,
                   world := (world self)\<lparr>sink := source (world self)\<rparr>,
                   trace := trace self @
                     [RunIteration, LoopEndEvaluate (source (world self)),
                      LoopStartSet (source (world self)), RunIteration,
                      LoopEndEvaluate (source (world self))] \<rparr>)"
proof -
  let ?v = "source (world self)"
  let ?h = "(replicate (nat (max_iteration self)) (float_zero A))[0 := ?v]"
  let ?s = "self\<lparr>world := (world self)\<lparr>sink := ?v\<rparr>, current_iteration := 0,
                trace := trace self @ [RunIteration, LoopEndEvaluate ?v]\<rparr>"
  from assms(1) have len: "Suc 0 < nat (max_iteration self)" by linarith
  have ex: "execute A identity_wf self = loop A identity_wf ?h ?s"
    using assms(1) by (simp add: execute_def identity_wf_def endpoints_def record_event_def Let_def)
  have ns: "\<not> stop identity_wf (world ?s)"
    using assms(2) by (simp add: identity_wf_def endpoints_def)
  have lt: "int (current_iteration ?s) < max_iteration ?s - 1"
    using assms(1) by simp
  have ln: "Suc (current_iteration ?s) < length ?h" using len by simp
  have h0: "?h ! current_iteration ?s = ?v" using len by simp
  have run: "run_iteration identity_wf
       (loop_start_set identity_wf (?h ! current_iteration ?s) (world ?s))
     = Inr ((world self)\<lparr>sink := ?v\<rparr>)"
    unfolding h0 by (simp add: identity_wf_def endpoints_def)
  have ev: "loop_end_evaluate identity_wf ((world self)\<lparr>sink := ?v\<rparr>) = ?v"
    by (simp add: identity_wf_def endpoints_def)
  have st: "step A identity_wf ?h ?s =
      Break (?h[Suc 0 := ?v])
        (?s\<lparr>world := (world self)\<lparr>sink := ?v\<rparr>, current_iteration := Suc 0,
             trace := trace ?s @ [LoopStartSet ?v, RunIteration, LoopEndEvaluate ?v]\<rparr>)"
    using step_run[OF ns lt ln run, of A] assms(3) unfolding h0 ev by simp
  have tk: "take (Suc (Suc 0)) (?h[Suc 0 := ?v]) = [?v, ?v]"
    using len by (simp add: take_Suc_conv_app_nth)
  show ?thesis
    unfolding ex loop.simps[of A identity_wf ?h ?s] st by (simp add: tk)
qed

text \<open>
  C5. With the defaults \<^verbatim>\<open>max_iteration = 25\<close> and \<^verbatim>\<open>tolerance = 0.00001\<close>, the workflow
  \<^verbatim>\<open>sink := source\<close> and the source at 3, whatever the sink holds, \<^verbatim>\<open>execute\<close> returns
  with \<^verbatim>\<open>current_iteration = 1\<close> and \<^verbatim>\<open>history = [3, 3]\<close>, after the first run and one
  pass of the loop.
\<close>

theorem identity_converges:
  "execute exact identity_wf
     (Iterate_init \<lparr>source = 3, sink = s0, stop_requested = False\<rparr>) =
     Return \<lparr> max_iteration = 25, tolerance = 1 / 100000, history = [3, 3],
              current_iteration = 1,
              world = \<lparr>source = 3, sink = 3, stop_requested = False\<rparr>,
              trace = [RunIteration, LoopEndEvaluate 3, LoopStartSet 3, RunIteration,
                       LoopEndEvaluate 3] \<rparr>"
  by (simp add: execute_def loop.simps Iterate_init_def identity_wf_def endpoints_def
        record_event_def step_def Let_def exact_def eval_nat_numeral)

subsection \<open>A requested stop\<close>

text \<open>
  C3. When the stop flag is set at the start of a pass, the pass raises
  \<^verbatim>\<open>RunStopped\<close> and \<^verbatim>\<open>execute\<close> ends with it, whatever \<^verbatim>\<open>current_iteration\<close> and
  \<^verbatim>\<open>max_iteration\<close> are: the test comes before the test of the iteration count. The
  driver is left as the pass found it: no run of the workflow and no write to
  \<^verbatim>\<open>loop_start\<close> were added to the trace, the state of the collaborators and
  \<^verbatim>\<open>self.history\<close> are the same.
\<close>

theorem stop_comes_first:
  assumes "stop C (world self)"
  shows "step A C hist self = Raise RunStopped self \<and>
         loop A C hist self = Raised RunStopped self \<and>
         trace (final (loop A C hist self)) = trace self \<and>
         world (final (loop A C hist self)) = world self \<and>
         history (final (loop A C hist self)) = history self \<and>
         current_iteration (final (loop A C hist self)) = current_iteration self"
  using assms by (simp add: loop.simps step_stop)

theorem stop_comes_first_witness:
  "stop identity_wf (world stopped_driver) \<and>
   max_iteration stopped_driver - 1 \<le> int (current_iteration stopped_driver) \<and>
   loop exact identity_wf [3] stopped_driver = Raised RunStopped stopped_driver \<and>
   trace (final (loop exact identity_wf [3] stopped_driver)) = [RunIteration, LoopEndEvaluate 3] \<and>
   history (final (loop exact identity_wf [3] stopped_driver)) = []"
proof -
  have h: "stop identity_wf (world stopped_driver)"
    by (simp add: stopped_driver_def Iterate_init_def identity_wf_def endpoints_def)
  have "max_iteration stopped_driver - 1 \<le> int (current_iteration stopped_driver)"
    and "trace stopped_driver = [RunIteration, LoopEndEvaluate 3]"
    and "history stopped_driver = []"
    by (simp_all add: stopped_driver_def Iterate_init_def)
  with h stop_comes_first[OF h, of exact "[3]"] show ?thesis by simp
qed

subsection \<open>What is stored in the history\<close>

lemma loop_history:
  "length hist = nat (max_iteration self) \<Longrightarrow> current_iteration self < length hist \<Longrightarrow>
   observed (trace self) = pre @ take (current_iteration self + 1) hist \<Longrightarrow>
   (case loop A C hist self of
      Return s \<Rightarrow> observed (trace s) = pre @ history s \<and>
                  length (history s) = current_iteration s + 1
    | Raised e s \<Rightarrow>
        if e = RuntimeError
        then observed (trace s) = pre @ history s \<and>
             length (history s) = current_iteration s + 1
        else history s = history self)"
proof (induction A C hist self rule: loop.induct)
  case (1 A C hist self)
  let ?i = "current_iteration self"
  show ?case
  proof (cases "stop C (world self)")
    case True
    then show ?thesis by (simp add: loop.simps step_stop)
  next
    case ns: False
    show ?thesis
    proof (cases "max_iteration self - 1 \<le> int ?i")
      case True
      with ns 1(2,3,4) show ?thesis by (simp add: loop.simps step_max)
    next
      case False
      then have lt: "int ?i < max_iteration self - 1" by simp
      with 1(2) have len: "Suc ?i < length hist" by linarith
      show ?thesis
      proof (cases "run_iteration C (loop_start_set C (hist ! ?i) (world self))")
        case (Inl ew)
        then obtain e w where
          "run_iteration C (loop_start_set C (hist ! ?i) (world self)) = Inl (e, w)"
          by (cases ew) simp
        with ns lt 1(3) show ?thesis by (simp add: loop.simps step_fail)
      next
        case (Inr w)
        let ?v = "loop_end_evaluate C w"
        let ?h = "hist[Suc ?i := ?v]"
        let ?s = "self\<lparr>world := w, current_iteration := Suc ?i,
             trace := trace self @ [LoopStartSet (hist ! ?i), RunIteration, LoopEndEvaluate ?v]\<rparr>"
        have obs: "observed (trace ?s) = pre @ take (current_iteration ?s + 1) ?h"
          using 1(4) len by (simp add: observed_append take_Suc_update)
        show ?thesis
        proof (cases "float_less A (float_abs A (float_sub A ?v (hist ! ?i))) (tolerance self)")
          case True
          then have st: "step A C hist self = Break ?h ?s"
            using step_run[OF ns lt len Inr] by simp
          show ?thesis using obs len by (simp add: loop.simps st)
        next
          case False
          then have st: "step A C hist self = Continue ?h ?s"
            using step_run[OF ns lt len Inr] by simp
          have "case loop A C ?h ?s of
              Return s \<Rightarrow> observed (trace s) = pre @ history s \<and>
                  length (history s) = current_iteration s + 1
            | Raised e s \<Rightarrow>
                if e = RuntimeError
                then observed (trace s) = pre @ history s \<and>
                     length (history s) = current_iteration s + 1
                else history s = history ?s"
            using 1(2) len obs by (intro "1.IH"[OF st]) simp_all
          then show ?thesis by (simp add: loop.simps[of A C hist self] st split: result.splits)
        qed
      qed
    qed
  qed
qed

lemma failing_run:
  "execute exact failing_wf used_driver =
     Raised (WorkflowError ())
       \<lparr> max_iteration = 25, tolerance = 1 / 100000, history = [3, 3],
         current_iteration = 0,
         world = \<lparr>source = 1, sink = 1, stop_requested = False\<rparr>,
         trace = [RunIteration, LoopEndEvaluate 1, LoopStartSet 1, RunIteration] \<rparr>"
  by (simp add: execute_def loop.simps used_driver_def Iterate_init_def failing_wf_def
        endpoints_def record_event_def step_def Let_def exact_def eval_nat_numeral)

lemma plus_one_run:
  "execute exact plus_one_wf driver3 =
     Raised RuntimeError
       \<lparr> max_iteration = 3, tolerance = 1 / 100000, history = [1, 2, 3],
         current_iteration = 2,
         world = \<lparr>source = 2, sink = 3, stop_requested = False\<rparr>,
         trace = [RunIteration, LoopEndEvaluate 1, LoopStartSet 1, RunIteration,
                  LoopEndEvaluate 2, LoopStartSet 2, RunIteration, LoopEndEvaluate 3] \<rparr>"
  by (simp add: execute_def loop.simps driver3_def Iterate_init_def plus_one_wf_def
        endpoints_def record_event_def step_def Let_def exact_def eval_nat_numeral)

text \<open>
  C4, as the source has it. When \<^verbatim>\<open>execute\<close> ends with the \<^verbatim>\<open>RuntimeError\<close> of the
  iteration count, \<^verbatim>\<open>self.history\<close> holds the values that \<^verbatim>\<open>loop_end.evaluate()\<close>
  returned during this execution, in order, and nothing else:
  \<^verbatim>\<open>current_iteration + 1\<close> values, no slot of the array that was never written and no
  value of an earlier execution. When it ends with an error of the workflow,
  \<^verbatim>\<open>self.history\<close> is what it was before the call.
\<close>

theorem fatal_history:
  "(execute A C self = Raised RuntimeError s \<longrightarrow>
      observed (trace s) = observed (trace self) @ history s \<and>
      length (history s) = current_iteration s + 1) \<and>
   (execute A C self = Raised (WorkflowError e) s \<longrightarrow> history s = history self)"
proof (cases "run_iteration C (world self)")
  case (Inl ew)
  then show ?thesis by (cases ew) (auto simp add: execute_def record_event_def)
next
  case (Inr w0)
  let ?v = "loop_end_evaluate C w0"
  let ?s = "self\<lparr>world := w0, current_iteration := 0,
                trace := trace self @ [RunIteration, LoopEndEvaluate ?v]\<rparr>"
  let ?h = "(replicate (nat (max_iteration self)) (float_zero A))[0 := ?v]"
  show ?thesis
  proof (cases "max_iteration self \<le> 0")
    case True
    with Inr show ?thesis by (auto simp add: execute_def Let_def record_event_def)
  next
    case False
    with Inr have ex: "execute A C self = loop A C ?h ?s"
      by (simp add: execute_def Let_def record_event_def)
    have "case loop A C ?h ?s of
        Return s \<Rightarrow> observed (trace s) = observed (trace self) @ history s \<and>
                  length (history s) = current_iteration s + 1
      | Raised e s \<Rightarrow>
          if e = RuntimeError
          then observed (trace s) = observed (trace self) @ history s \<and>
               length (history s) = current_iteration s + 1
          else history s = history ?s"
      using False by (intro loop_history) (simp_all add: observed_append take_Suc_conv_app_nth)
    then show ?thesis by (auto simp: ex)
  qed
qed

theorem fatal_history_witness:
  "execute exact plus_one_wf driver3 = Raised RuntimeError (final (execute exact plus_one_wf driver3)) \<and>
   history (final (execute exact plus_one_wf driver3)) = [1, 2, 3] \<and>
   observed (trace (final (execute exact plus_one_wf driver3))) = [1, 2, 3] \<and>
   current_iteration (final (execute exact plus_one_wf driver3)) = 2 \<and>
   execute exact failing_wf used_driver =
     Raised (WorkflowError ()) (final (execute exact failing_wf used_driver)) \<and>
   history (final (execute exact failing_wf used_driver)) = history used_driver"
proof -
  have a: "execute exact plus_one_wf driver3 = Raised RuntimeError (final (execute exact plus_one_wf driver3))"
    by (simp add: plus_one_run)
  have b: "execute exact failing_wf used_driver =
     Raised (WorkflowError ()) (final (execute exact failing_wf used_driver))"
    by (simp add: failing_run)
  have c: "trace driver3 = []" by (simp add: driver3_def Iterate_init_def)
  from fatal_history[where A = exact and C = plus_one_wf and self = driver3
         and s = "final (execute exact plus_one_wf driver3)"] a
  have d: "observed (trace (final (execute exact plus_one_wf driver3)))
             = history (final (execute exact plus_one_wf driver3))"
    by (simp add: c)
  from fatal_history[where A = exact and C = failing_wf and self = used_driver and e = "()"
         and s = "final (execute exact failing_wf used_driver)"] b
  have e: "history (final (execute exact failing_wf used_driver)) = history used_driver"
    by blast
  have f: "history (final (execute exact plus_one_wf driver3)) = [1, 2, 3]"
    "current_iteration (final (execute exact plus_one_wf driver3)) = 2"
    by (simp_all add: plus_one_run)
  from a b d e f show ?thesis by simp
qed

text \<open>
  The claim C4 says the same of every fatal end. It fails for an error of the
  workflow: a driver that holds \<open>[3, 3]\<close> from an earlier execution, run on
  \<open>failing_wf\<close>, observes the value 1 and ends with the workflow's error in the first
  pass; \<^verbatim>\<open>self.history\<close> is still \<open>[3, 3]\<close>.
\<close>

theorem fatal_history_stale_cex:
  "execute exact failing_wf used_driver =
     Raised (WorkflowError ()) (final (execute exact failing_wf used_driver)) \<and>
   observed (trace (final (execute exact failing_wf used_driver))) = [1] \<and>
   history (final (execute exact failing_wf used_driver)) = [3, 3] \<and>
   history (final (execute exact failing_wf used_driver)) \<noteq>
     observed (trace (final (execute exact failing_wf used_driver)))"
  by (simp add: failing_run)

subsection \<open>The iteration count runs out\<close>

lemma loop_never_converges:
  "\<forall>w. I w \<longrightarrow> \<not> stop C w \<and>
          (case run_iteration C (loop_start_set C (loop_end_evaluate C w) w) of
             Inl e \<Rightarrow> False
           | Inr w' \<Rightarrow> I w' \<and>
               \<not> float_less A
                    (float_abs A (float_sub A (loop_end_evaluate C w') (loop_end_evaluate C w)))
                    tol) \<Longrightarrow>
   tolerance self = tol \<Longrightarrow> I (world self) \<Longrightarrow>
   length hist = nat (max_iteration self) \<Longrightarrow> current_iteration self < length hist \<Longrightarrow>
   hist ! current_iteration self = loop_end_evaluate C (world self) \<Longrightarrow>
   \<exists>s. loop A C hist self = Raised RuntimeError s \<and>
       int (current_iteration s) = max_iteration self - 1 \<and>
       length (history s) = current_iteration s + 1 \<and>
       runs (trace s) =
         runs (trace self) + (nat (max_iteration self) - 1 - current_iteration self)"
proof (induction A C hist self rule: loop.induct)
  case (1 A C hist self)
  let ?i = "current_iteration self"
  let ?w = "world self"
  note H = 1(2) and tl = 1(3) and Iw0 = 1(4) and ln = 1(5) and cl = 1(6) and h0 = 1(7)
  from H Iw0 have ns: "\<not> stop C ?w" by blast
  show ?case
  proof (cases "max_iteration self - 1 \<le> int ?i")
    case True
    with ln cl have eq: "int ?i = max_iteration self - 1" by linarith
    show ?thesis using ns True ln cl eq by (simp add: loop.simps step_max)
  next
    case False
    then have lt: "int ?i < max_iteration self - 1" by simp
    with ln have len: "Suc ?i < length hist" by linarith
    from H Iw0
    have "case run_iteration C (loop_start_set C (loop_end_evaluate C ?w) ?w) of
             Inl e \<Rightarrow> False
           | Inr w' \<Rightarrow> I w' \<and>
               \<not> float_less A
                    (float_abs A (float_sub A (loop_end_evaluate C w') (loop_end_evaluate C ?w)))
                    tol"
      by blast
    then obtain w where
      run: "run_iteration C (loop_start_set C (loop_end_evaluate C ?w) ?w) = Inr w"
      and Iw: "I w"
      and far: "\<not> float_less A
                  (float_abs A (float_sub A (loop_end_evaluate C w) (loop_end_evaluate C ?w))) tol"
      by (cases "run_iteration C (loop_start_set C (loop_end_evaluate C ?w) ?w)") auto
    let ?v = "loop_end_evaluate C w"
    let ?h = "hist[Suc ?i := ?v]"
    let ?s = "self\<lparr>world := w, current_iteration := Suc ?i,
         trace := trace self @ [LoopStartSet (hist ! ?i), RunIteration, LoopEndEvaluate ?v]\<rparr>"
    from run h0 have run': "run_iteration C (loop_start_set C (hist ! ?i) ?w) = Inr w" by simp
    have st: "step A C hist self = Continue ?h ?s"
      using step_run[OF ns lt len run'] far tl h0 by simp
    have "\<exists>s. loop A C ?h ?s = Raised RuntimeError s \<and>
         int (current_iteration s) = max_iteration ?s - 1 \<and>
         length (history s) = current_iteration s + 1 \<and>
         runs (trace s) =
           runs (trace ?s) + (nat (max_iteration ?s) - 1 - current_iteration ?s)"
      using H tl ln len Iw by (intro "1.IH"[OF st]) simp_all
    then obtain s where s: "loop A C ?h ?s = Raised RuntimeError s"
        "int (current_iteration s) = max_iteration self - 1"
        "length (history s) = current_iteration s + 1"
        "runs (trace s) = runs (trace ?s) + (nat (max_iteration self) - 1 - Suc ?i)"
      by auto
    have "runs (trace ?s) = runs (trace self) + 1" by (simp add: runs_def)
    with s(4) lt
    have "runs (trace s) = runs (trace self) + (nat (max_iteration self) - 1 - ?i)"
      by linarith
    with s(1,2,3) show ?thesis by (simp add: loop.simps[of A C hist self] st)
  qed
qed

text \<open>
  C2, as the source has it. Let \<^verbatim>\<open>max_iteration = N\<close> be at least 1, and let the
  workflow never converge: its first run returns, and from every state that a run
  has left (\<open>I\<close> holds of these), no stop is requested, the next run, on the source set
  to the value of the sink, returns, and \<^verbatim>\<open>abs(new - last) < tolerance\<close> is false of the
  new value of the sink and the last. Then \<^verbatim>\<open>execute\<close> ends with the \<^verbatim>\<open>RuntimeError\<close> of the
  iteration count, after \<open>N - 1\<close> passes of the loop (\<^verbatim>\<open>current_iteration = N - 1\<close>) and
  \<open>N\<close> runs of the workflow, the first run and one in each pass; and \<^verbatim>\<open>self.history\<close> has
  \<open>N\<close> entries, which is \<^verbatim>\<open>current_iteration + 1\<close>.
\<close>

theorem max_iterations_exceeded:
  assumes "1 \<le> max_iteration self"
    and "run_iteration C (world self) = Inr w0" and "I w0"
    and "\<forall>w. I w \<longrightarrow> \<not> stop C w \<and>
          (case run_iteration C (loop_start_set C (loop_end_evaluate C w) w) of
             Inl e \<Rightarrow> False
           | Inr w' \<Rightarrow> I w' \<and>
               \<not> float_less A
                    (float_abs A (float_sub A (loop_end_evaluate C w') (loop_end_evaluate C w)))
                    (tolerance self))"
  shows "\<exists>s. execute A C self = Raised RuntimeError s \<and>
         int (current_iteration s) = max_iteration self - 1 \<and>
         int (length (history s)) = max_iteration self \<and>
         length (history s) = current_iteration s + 1 \<and>
         runs (trace s) = runs (trace self) + nat (max_iteration self)"
proof -
  let ?v = "loop_end_evaluate C w0"
  let ?s = "self\<lparr>world := w0, current_iteration := 0,
                trace := trace self @ [RunIteration, LoopEndEvaluate ?v]\<rparr>"
  let ?h = "(replicate (nat (max_iteration self)) (float_zero A))[0 := ?v]"
  have ex: "execute A C self = loop A C ?h ?s"
    using assms(1,2) by (simp add: execute_def Let_def record_event_def)
  have "\<exists>s. loop A C ?h ?s = Raised RuntimeError s \<and>
         int (current_iteration s) = max_iteration ?s - 1 \<and>
         length (history s) = current_iteration s + 1 \<and>
         runs (trace s) =
           runs (trace ?s) + (nat (max_iteration ?s) - 1 - current_iteration ?s)"
    using assms(1,3) by (intro loop_never_converges[OF assms(4)]) simp_all
  then obtain s where s: "loop A C ?h ?s = Raised RuntimeError s"
        "int (current_iteration s) = max_iteration self - 1"
        "length (history s) = current_iteration s + 1"
        "runs (trace s) = runs (trace ?s) + (nat (max_iteration self) - 1)"
    by auto
  have "runs (trace ?s) = runs (trace self) + 1" by (simp add: runs_def)
  with s(4) assms(1) have "runs (trace s) = runs (trace self) + nat (max_iteration self)"
    by linarith
  with s(1,2,3) ex show ?thesis by auto
qed

theorem max_iterations_exceeded_witness:
  "\<exists>s. execute exact plus_one_wf driver3 = Raised RuntimeError s \<and>
       current_iteration s = 2 \<and> length (history s) = 3 \<and> runs (trace s) = 3"
proof -
  have h1: "1 \<le> max_iteration driver3"
    and h2: "run_iteration plus_one_wf (world driver3)
               = Inr \<lparr>source = 0, sink = 1, stop_requested = False\<rparr>"
    and h3: "\<not> stop_requested \<lparr>source = 0, sink = 1, stop_requested = False\<rparr>"
    by (simp_all add: driver3_def Iterate_init_def plus_one_wf_def endpoints_def)
  have h4: "\<forall>w. \<not> stop_requested w \<longrightarrow> \<not> stop plus_one_wf w \<and>
          (case run_iteration plus_one_wf
                  (loop_start_set plus_one_wf (loop_end_evaluate plus_one_wf w) w) of
             Inl e \<Rightarrow> False
           | Inr w' \<Rightarrow> \<not> stop_requested w' \<and>
               \<not> float_less exact
                    (float_abs exact
                      (float_sub exact (loop_end_evaluate plus_one_wf w')
                        (loop_end_evaluate plus_one_wf w)))
                    (tolerance driver3))"
    by (simp add: driver3_def Iterate_init_def plus_one_wf_def endpoints_def exact_def)
  have c: "max_iteration driver3 = 3" "trace driver3 = []"
    by (simp_all add: driver3_def Iterate_init_def)
  from max_iterations_exceeded[where A = exact and I = "\<lambda>w. \<not> stop_requested w",
         OF h1 h2 h3 h4]
  obtain s where "execute exact plus_one_wf driver3 = Raised RuntimeError s"
    "int (current_iteration s) = max_iteration driver3 - 1"
    "int (length (history s)) = max_iteration driver3"
    "runs (trace s) = runs (trace driver3) + nat (max_iteration driver3)"
    by blast
  then show ?thesis by (auto simp: c runs_def)
qed

text \<open>
  The claim C2 gives the history \<open>N - 1\<close> entries. With \<open>N = 3\<close> and the workflow
  \<^verbatim>\<open>sink := source + 1\<close>, \<^verbatim>\<open>execute\<close> ends with the \<^verbatim>\<open>RuntimeError\<close> at
  \<^verbatim>\<open>current_iteration = 2\<close>, and the history has 3 entries, not 2.
\<close>

theorem history_length_cex:
  "execute exact plus_one_wf driver3 = Raised RuntimeError (final (execute exact plus_one_wf driver3)) \<and>
   max_iteration driver3 = 3 \<and>
   current_iteration (final (execute exact plus_one_wf driver3)) = 2 \<and>
   history (final (execute exact plus_one_wf driver3)) = [1, 2, 3] \<and>
   int (length (history (final (execute exact plus_one_wf driver3)))) \<noteq> max_iteration driver3 - 1"
  by (simp add: plus_one_run) (simp add: driver3_def Iterate_init_def)

section \<open>Properties of the variable tree\<close>

subsection \<open>The setter on a node and below it\<close>

lemma vartree_induct [case_names VariableTree]:
  assumes "\<And>io l d. (\<And>k c. (k, Inr c) \<in> set d \<Longrightarrow> P c) \<Longrightarrow> P (VariableTree io l d)"
  shows "P t"
proof (induction t)
  case (VariableTree io l d)
  show ?case
  proof (rule assms)
    fix k c assume "(k, Inr c) \<in> set d"
    then show "P c" by (intro VariableTree) (auto simp: snds.simps)
  qed
qed

lemma iotype_set_iotype: "iotype (set_iotype val t) = val"
  by (cases t) simp

lemma listening_set_iotype:
  "val \<noteq> iotype t \<Longrightarrow> listening (set_iotype val t) = (val = Some ''in'')"
  by (cases t) simp

lemma leaves_set_iotype: "leaves (set_iotype val t) = leaves t"
proof (induction t rule: vartree_induct)
  case (VariableTree io l d)
  show ?case
    by (auto intro!: arg_cong[where f=concat] simp: VariableTree split: sum.splits)
qed

lemma in_descendants:
  "n \<in> set (descendants (VariableTree io l d)) \<longleftrightarrow>
     (\<exists>k c. (k, Inr c) \<in> set d \<and> (n = c \<or> n \<in> set (descendants c)))"
  by (auto split: sum.splits)

lemma child_in_descendants:
  "(k, Inr c) \<in> set d \<Longrightarrow> c \<in> set (descendants (VariableTree io l d))"
  using in_descendants by blast

lemma below_child_in_descendants:
  "(k, Inr c) \<in> set d \<Longrightarrow> n \<in> set (descendants c) \<Longrightarrow>
   n \<in> set (descendants (VariableTree io l d))"
  using in_descendants by blast

lemma in_dict_set_iotype:
  "val \<noteq> io \<Longrightarrow>
   (k, Inr c') \<in> set (dict (set_iotype val (VariableTree io l d))) \<longleftrightarrow>
     (\<exists>c. (k, Inr c) \<in> set d \<and> c' = set_iotype val c)"
  by (auto split: sum.splits simp: image_iff) force

lemma in_children: "c \<in> set (children t) \<longleftrightarrow> (\<exists>k. (k, Inr c) \<in> set (dict t))"
  by (auto simp: children_def split: sum.splits)

lemma in_descendants_set_iotype:
  assumes "val \<noteq> io"
  shows "n \<in> set (descendants (set_iotype val (VariableTree io l d))) \<longleftrightarrow>
     (\<exists>k c. (k, Inr c) \<in> set d \<and>
        (n = set_iotype val c \<or> n \<in> set (descendants (set_iotype val c))))"
proof -
  let ?d = "dict (set_iotype val (VariableTree io l d))"
  have eq: "set_iotype val (VariableTree io l d) = VariableTree val (val = Some ''in'') ?d"
    using assms by simp
  have "n \<in> set (descendants (VariableTree val (val = Some ''in'') ?d)) \<longleftrightarrow>
     (\<exists>k c'. (k, Inr c') \<in> set ?d \<and> (n = c' \<or> n \<in> set (descendants c')))"
    by (rule in_descendants)
  also have "\<dots> \<longleftrightarrow> (\<exists>k c. (k, Inr c) \<in> set d \<and>
        (n = set_iotype val c \<or> n \<in> set (descendants (set_iotype val c))))"
    unfolding in_dict_set_iotype[OF assms] by blast
  finally show ?thesis unfolding eq[symmetric] .
qed

lemma hook_set_iotype:
  "\<forall>n\<in>set (nodes t). listening n = (iotype n = Some ''in'') \<Longrightarrow>
   \<forall>n\<in>set (nodes (set_iotype val t)). listening n = (iotype n = Some ''in'')"
proof (induction t rule: vartree_induct)
  case (VariableTree io l d)
  show ?case
  proof (cases "val = io")
    case True
    with VariableTree.prems show ?thesis by simp
  next
    case False
    have "listening n = (iotype n = Some ''in'')"
      if "n \<in> set (descendants (set_iotype val (VariableTree io l d)))" for n
    proof -
      from that False obtain k c where c: "(k, Inr c) \<in> set d"
        and n: "n = set_iotype val c \<or> n \<in> set (descendants (set_iotype val c))"
        unfolding in_descendants_set_iotype[OF False] by blast
      have "listening m = (iotype m = Some ''in'')" if "m \<in> set (nodes c)" for m
      proof -
        from that have "m = c \<or> m \<in> set (descendants c)" by (simp add: nodes_def)
        with c have "m \<in> set (descendants (VariableTree io l d))"
          using child_in_descendants below_child_in_descendants by blast
        then have "m \<in> set (nodes (VariableTree io l d))" unfolding nodes_def by simp
        with VariableTree.prems show ?thesis by blast
      qed
      then have "\<forall>m\<in>set (nodes c). listening m = (iotype m = Some ''in'')" by blast
      from VariableTree.IH[OF c this] n show ?thesis unfolding nodes_def by auto
    qed
    moreover have "listening (set_iotype val (VariableTree io l d))
        = (iotype (set_iotype val (VariableTree io l d)) = Some ''in'')"
      using False by simp
    ultimately show ?thesis unfolding nodes_def by simp
  qed
qed

lemma hook_fold_set_iotype:
  "\<forall>n\<in>set (nodes t). listening n = (iotype n = Some ''in'') \<Longrightarrow>
   \<forall>n\<in>set (nodes (fold set_iotype vals t)). listening n = (iotype n = Some ''in'')"
proof (induction vals arbitrary: t)
  case Nil
  then show ?case by simp
next
  case (Cons a vals)
  from Cons.IH[OF hook_set_iotype[OF Cons.prems]] show ?case by simp
qed

lemma cascade_set_iotype:
  "val \<noteq> iotype t \<Longrightarrow> \<forall>n\<in>set (descendants t). iotype n \<noteq> val \<Longrightarrow>
   \<forall>n\<in>set (descendants (set_iotype val t)).
      iotype n = val \<and> listening n = (val = Some ''in'')"
proof (induction t rule: vartree_induct)
  case (VariableTree io l d)
  then have ne: "val \<noteq> io" by simp
  have "iotype n = val \<and> listening n = (val = Some ''in'')"
    if "n \<in> set (descendants (set_iotype val (VariableTree io l d)))" for n
  proof -
    from that obtain k c where c: "(k, Inr c) \<in> set d"
      and n: "n = set_iotype val c \<or> n \<in> set (descendants (set_iotype val c))"
      unfolding in_descendants_set_iotype[OF ne] by blast
    from VariableTree.prems(2) child_in_descendants[OF c] have c1: "val \<noteq> iotype c"
      by blast
    from VariableTree.prems(2) below_child_in_descendants[OF c]
    have c2: "\<forall>m\<in>set (descendants c). iotype m \<noteq> val"
      by blast
    from VariableTree.IH[OF c c1 c2] n c1 show ?thesis
      by (auto simp: iotype_set_iotype listening_set_iotype)
  qed
  then show ?case by blast
qed

lemma children_set_iotype:
  "val \<noteq> iotype t \<Longrightarrow> \<forall>c\<in>set (children (set_iotype val t)). iotype c = val"
proof (cases t)
  case (VariableTree io l d)
  assume "val \<noteq> iotype t"
  with VariableTree have ne: "val \<noteq> io" by simp
  have "iotype c = val" if "c \<in> set (children (set_iotype val (VariableTree io l d)))" for c
  proof -
    from that obtain k where "(k, Inr c) \<in> set (dict (set_iotype val (VariableTree io l d)))"
      unfolding in_children by blast
    then obtain c0 where "c = set_iotype val c0"
      unfolding in_dict_set_iotype[OF ne] by blast
    then show ?thesis by (simp add: iotype_set_iotype)
  qed
  then show ?thesis unfolding VariableTree by blast
qed

lemma set_iotype_same: "iotype t = val \<Longrightarrow> set_iotype val t = t"
  by (cases t) auto

lemma dict_set_iotype:
  assumes "val \<noteq> iotype t"
  shows "dict (set_iotype val t) =
     map (\<lambda>(k, v). (k, case v of Inl x \<Rightarrow> Inl x
                          | Inr c \<Rightarrow> Inr (if iotype c = val then c else set_iotype val c)))
       (dict t)"
proof (cases t)
  case (VariableTree io l d)
  with assms have ne: "val \<noteq> io" by simp
  have "map (\<lambda>(k, v). (k, case v of Inl x \<Rightarrow> Inl x | Inr c \<Rightarrow> Inr (set_iotype val c))) d =
        map (\<lambda>(k, v). (k, case v of Inl x \<Rightarrow> Inl x
                          | Inr c \<Rightarrow> Inr (if iotype c = val then c else set_iotype val c))) d"
    by (rule map_cong) (auto split: sum.splits simp: set_iotype_same)
  with ne show ?thesis unfolding VariableTree by simp
qed

lemma descendants_trans:
  "n \<in> set (descendants t) \<Longrightarrow> m \<in> set (descendants n) \<Longrightarrow> m \<in> set (descendants t)"
proof (induction t rule: vartree_induct)
  case (VariableTree io l d)
  from VariableTree.prems(1) obtain k c where c: "(k, Inr c) \<in> set d"
    and n: "n = c \<or> n \<in> set (descendants c)"
    unfolding in_descendants by blast
  from n have "m \<in> set (descendants c)"
  proof
    assume "n = c"
    with VariableTree.prems(2) show ?thesis by simp
  next
    assume "n \<in> set (descendants c)"
    from VariableTree.IH[OF c this VariableTree.prems(2)] show ?thesis .
  qed
  with c show ?case by (rule below_child_in_descendants)
qed

lemma cascade_iff:
  "val \<noteq> iotype t \<Longrightarrow>
   (\<forall>n\<in>set (descendants (set_iotype val t)). iotype n = val) \<longleftrightarrow>
   (\<forall>c\<in>set (descendants t).
      iotype c = val \<longrightarrow> (\<forall>n\<in>set (descendants c). iotype n = val))"
proof (induction t rule: vartree_induct)
  case (VariableTree io l d)
  then have ne: "val \<noteq> io" by simp
  let ?all = "\<lambda>c. \<forall>n\<in>set (descendants c). iotype n = val"
  let ?closed = "\<lambda>c. \<forall>x\<in>set (descendants c). iotype x = val \<longrightarrow> ?all x"
  have child: "?all (set_iotype val c) \<longleftrightarrow> (iotype c = val \<longrightarrow> ?all c) \<and> ?closed c"
    if c: "(k, Inr c) \<in> set d" for k c
  proof (cases "iotype c = val")
    case True
    then have same: "set_iotype val c = c" by (rule set_iotype_same)
    have "?closed c" if a: "?all c"
    proof (intro ballI impI)
      fix x n assume x: "x \<in> set (descendants c)" and n: "n \<in> set (descendants x)"
      from descendants_trans[OF x n] a show "iotype n = val" by blast
    qed
    with True show ?thesis unfolding same by blast
  next
    case False
    then have "val \<noteq> iotype c" by blast
    from VariableTree.IH[OF c this] False show ?thesis by blast
  qed
  show ?case
  proof
    assume L: "?all (set_iotype val (VariableTree io l d))"
    show "?closed (VariableTree io l d)"
    proof (intro ballI impI)
      fix x n
      assume x: "x \<in> set (descendants (VariableTree io l d))" and xv: "iotype x = val"
        and n: "n \<in> set (descendants x)"
      from x obtain k c where c: "(k, Inr c) \<in> set d"
        and xc: "x = c \<or> x \<in> set (descendants c)"
        unfolding in_descendants by blast
      have "?all (set_iotype val c)"
      proof
        fix m assume "m \<in> set (descendants (set_iotype val c))"
        with c have "m \<in> set (descendants (set_iotype val (VariableTree io l d)))"
          unfolding in_descendants_set_iotype[OF ne] by blast
        with L show "iotype m = val" by blast
      qed
      with child[OF c] have cl: "(iotype c = val \<longrightarrow> ?all c) \<and> ?closed c" by blast
      from xc show "iotype n = val"
      proof
        assume "x = c"
        with cl xv n show ?thesis by blast
      next
        assume "x \<in> set (descendants c)"
        with cl xv n show ?thesis by blast
      qed
    qed
  next
    assume R: "?closed (VariableTree io l d)"
    show "?all (set_iotype val (VariableTree io l d))"
    proof
      fix m assume "m \<in> set (descendants (set_iotype val (VariableTree io l d)))"
      then obtain k c where c: "(k, Inr c) \<in> set d"
        and m: "m = set_iotype val c \<or> m \<in> set (descendants (set_iotype val c))"
        unfolding in_descendants_set_iotype[OF ne] by blast
      have c1: "iotype c = val \<longrightarrow> ?all c"
        using R child_in_descendants[OF c, of io l] by blast
      have c2: "?closed c"
      proof (intro ballI impI)
        fix x n assume x: "x \<in> set (descendants c)" and xv: "iotype x = val"
          and n: "n \<in> set (descendants x)"
        from below_child_in_descendants[OF c x, of io l] R xv n show "iotype n = val" by blast
      qed
      from c1 c2 child[OF c] have "?all (set_iotype val c)" by blast
      with m show "iotype m = val" by (auto simp: iotype_set_iotype)
    qed
  qed
qed

text \<open>
  C9. Assigning to \<^verbatim>\<open>iotype\<close> the value the node has leaves the node as it is: its
  iotype, its registration and everything below it.
\<close>

theorem set_iotype_unchanged: "set_iotype (iotype t) t = t"
  by (cases t) simp

text \<open>
  C6, as the source has it. Assigning to \<^verbatim>\<open>iotype\<close> a value \<open>val\<close> that the node does
  not have gives the node \<open>val\<close> and registers the handler exactly when \<open>val\<close> is \<^verbatim>\<open>'in'\<close>.
  In the node's \<^verbatim>\<open>__dict__\<close>, a value that is no \<^verbatim>\<open>VariableTree\<close> is kept; a
  \<^verbatim>\<open>VariableTree\<close> that has \<open>val\<close> already is left as it is, with everything below it; to
  any other \<^verbatim>\<open>VariableTree\<close> the same assignment is made. So every \<^verbatim>\<open>VariableTree\<close> among
  the values of \<^verbatim>\<open>__dict__\<close> has \<open>val\<close> afterwards, and the other values of the whole tree
  are as they were. Every \<^verbatim>\<open>VariableTree\<close> below the node has \<open>val\<close> afterwards if and only
  if, before, each one below the node that had \<open>val\<close> had nothing but \<open>val\<close> below it. When
  none below the node had \<open>val\<close> (so, when they all had the node's old iotype), every
  one of them has \<open>val\<close> afterwards and is registered exactly when \<open>val\<close> is \<^verbatim>\<open>'in'\<close>. When
  every node of the tree was registered exactly when its iotype was \<^verbatim>\<open>'in'\<close>, that is so
  afterwards.
\<close>

theorem set_iotype_cascade:
  assumes "val \<noteq> iotype t"
  shows "iotype (set_iotype val t) = val \<and>
     listening (set_iotype val t) = (val = Some ''in'') \<and>
     dict (set_iotype val t) =
       map (\<lambda>(k, v). (k, case v of Inl x \<Rightarrow> Inl x
                            | Inr c \<Rightarrow> Inr (if iotype c = val then c else set_iotype val c)))
         (dict t) \<and>
     (\<forall>c\<in>set (children (set_iotype val t)). iotype c = val) \<and>
     leaves (set_iotype val t) = leaves t \<and>
     ((\<forall>n\<in>set (descendants (set_iotype val t)). iotype n = val) \<longleftrightarrow>
      (\<forall>c\<in>set (descendants t).
         iotype c = val \<longrightarrow> (\<forall>n\<in>set (descendants c). iotype n = val))) \<and>
     ((\<forall>n\<in>set (descendants t). iotype n \<noteq> val) \<longrightarrow>
      (\<forall>n\<in>set (descendants (set_iotype val t)).
         iotype n = val \<and> listening n = (val = Some ''in''))) \<and>
     ((\<forall>n\<in>set (nodes t). listening n = (iotype n = Some ''in'')) \<longrightarrow>
      (\<forall>n\<in>set (nodes (set_iotype val t)). listening n = (iotype n = Some ''in'')))"
proof (intro conjI impI)
  show "iotype (set_iotype val t) = val" by (rule iotype_set_iotype)
  show "listening (set_iotype val t) = (val = Some ''in'')"
    using assms by (rule listening_set_iotype)
  show "dict (set_iotype val t) =
       map (\<lambda>(k, v). (k, case v of Inl x \<Rightarrow> Inl x
                            | Inr c \<Rightarrow> Inr (if iotype c = val then c else set_iotype val c)))
         (dict t)"
    using assms by (rule dict_set_iotype)
  show "\<forall>c\<in>set (children (set_iotype val t)). iotype c = val"
    using assms by (rule children_set_iotype)
  show "leaves (set_iotype val t) = leaves t" by (rule leaves_set_iotype)
  show "(\<forall>n\<in>set (descendants (set_iotype val t)). iotype n = val) \<longleftrightarrow>
      (\<forall>c\<in>set (descendants t).
         iotype c = val \<longrightarrow> (\<forall>n\<in>set (descendants c). iotype n = val))"
    using assms by (rule cascade_iff)
next
  assume "\<forall>n\<in>set (descendants t). iotype n \<noteq> val"
  with assms show "\<forall>n\<in>set (descendants (set_iotype val t)).
         iotype n = val \<and> listening n = (val = Some ''in'')"
    by (rule cascade_set_iotype)
next
  assume "\<forall>n\<in>set (nodes t). listening n = (iotype n = Some ''in'')"
  then show "\<forall>n\<in>set (nodes (set_iotype val t)). listening n = (iotype n = Some ''in'')"
    by (rule hook_set_iotype)
qed

theorem set_iotype_cascade_witness:
  "Some ''in'' \<noteq> iotype out_tree \<and>
   list_all (\<lambda>n. iotype n \<noteq> Some ''in'') (descendants out_tree) \<and>
   list_all (\<lambda>n. listening n = (iotype n = Some ''in'')) (nodes out_tree) \<and>
   iotype (set_iotype (Some ''in'') out_tree) = Some ''in'' \<and>
   listening (set_iotype (Some ''in'') out_tree) \<and>
   list_all (\<lambda>c. iotype c = Some ''in'') (children (set_iotype (Some ''in'') out_tree)) \<and>
   leaves (set_iotype (Some ''in'') out_tree) = leaves out_tree \<and>
   list_all (\<lambda>n. iotype n = Some ''in'' \<and> listening n)
     (descendants (set_iotype (Some ''in'') out_tree)) \<and>
   list_all (\<lambda>n. listening n = (iotype n = Some ''in''))
     (nodes (set_iotype (Some ''in'') out_tree)) \<and>
   Some ''in'' \<noteq> iotype in_below_tree \<and>
   map iotype (descendants in_below_tree) = [Some ''in'', Some ''in''] \<and>
   dict (set_iotype (Some ''in'') in_below_tree) = dict in_below_tree \<and>
   list_all (\<lambda>n. iotype n = Some ''in'') (descendants (set_iotype (Some ''in'') in_below_tree))"
proof -
  have h1: "Some ''in'' \<noteq> iotype out_tree" by (simp add: out_tree_def)
  have h2: "\<forall>n\<in>set (descendants out_tree). iotype n \<noteq> Some ''in''"
    by (simp add: out_tree_def)
  have h3: "\<forall>n\<in>set (nodes out_tree). listening n = (iotype n = Some ''in'')"
    by (simp add: out_tree_def nodes_def)
  from set_iotype_cascade[OF h1] h2 h3
  have a: "iotype (set_iotype (Some ''in'') out_tree) = Some ''in'' \<and>
     listening (set_iotype (Some ''in'') out_tree) \<and>
     (\<forall>c\<in>set (children (set_iotype (Some ''in'') out_tree)). iotype c = Some ''in'') \<and>
     leaves (set_iotype (Some ''in'') out_tree) = leaves out_tree \<and>
     (\<forall>n\<in>set (descendants (set_iotype (Some ''in'') out_tree)).
         iotype n = Some ''in'' \<and> listening n) \<and>
     (\<forall>n\<in>set (nodes (set_iotype (Some ''in'') out_tree)).
         listening n = (iotype n = Some ''in''))"
    by blast
  have g1: "Some ''in'' \<noteq> iotype in_below_tree" by (simp add: in_below_tree_def)
  have g2: "map iotype (descendants in_below_tree) = [Some ''in'', Some ''in'']"
    by (simp add: in_below_tree_def)
  have g3: "\<forall>c\<in>set (descendants in_below_tree).
      iotype c = Some ''in'' \<longrightarrow> (\<forall>n\<in>set (descendants c). iotype n = Some ''in'')"
    by (simp add: in_below_tree_def)
  have g4: "map (\<lambda>(k, v). (k, case v of Inl x \<Rightarrow> Inl x
              | Inr c \<Rightarrow> Inr (if iotype c = Some ''in'' then c
                              else set_iotype (Some ''in'') c)))
         (dict in_below_tree) = dict in_below_tree"
    by (simp add: in_below_tree_def)
  note th = set_iotype_cascade[OF g1]
  from th have b1: "dict (set_iotype (Some ''in'') in_below_tree) = dict in_below_tree"
    unfolding g4 by (elim conjE)
  from th have "(\<forall>n\<in>set (descendants (set_iotype (Some ''in'') in_below_tree)).
        iotype n = Some ''in'') \<longleftrightarrow>
     (\<forall>c\<in>set (descendants in_below_tree).
        iotype c = Some ''in'' \<longrightarrow> (\<forall>n\<in>set (descendants c). iotype n = Some ''in''))"
    by (elim conjE)
  with g3 have b2: "\<forall>n\<in>set (descendants (set_iotype (Some ''in'') in_below_tree)).
        iotype n = Some ''in''"
    by (rule iffD2[rotated])
  note b = conjI[OF b1 b2]
  from h1 h2 h3 a g1 g2 b show ?thesis unfolding list_all_iff by blast
qed

text \<open>
  The claim C6 gives the new iotype to every \<^verbatim>\<open>VariableTree\<close> below the node. In
  \<open>mixed_tree\<close> the root is \<^verbatim>\<open>'out'\<close>, its child \<^verbatim>\<open>a\<close> is \<^verbatim>\<open>'in'\<close> and \<^verbatim>\<open>b\<close> below \<^verbatim>\<open>a\<close> is
  \<^verbatim>\<open>'out'\<close>. Assigning \<^verbatim>\<open>'in'\<close> to the root finds \<^verbatim>\<open>a\<close> at \<^verbatim>\<open>'in'\<close> and leaves it, and \<^verbatim>\<open>b\<close>
  stays \<^verbatim>\<open>'out'\<close>, not registered.
\<close>

theorem cascade_skips_cex:
  "Some ''in'' \<noteq> iotype mixed_tree \<and>
   map iotype (descendants (set_iotype (Some ''in'') mixed_tree)) = [Some ''in'', Some ''out''] \<and>
   map listening (descendants (set_iotype (Some ''in'') mixed_tree)) = [True, False]"
  by (simp add: mixed_tree_def)

text \<open>
  C7. The handler of a node is registered if and only if the node's iotype is
  \<^verbatim>\<open>'in'\<close>: this holds of a new node after any sequence of assignments to its
  \<^verbatim>\<open>iotype\<close>; when it holds of every node of a tree, it holds of every node after any
  sequence of assignments at the root; and an assignment that changes the iotype
  registers the handler when the value is \<^verbatim>\<open>'in'\<close> and leaves it not registered for any
  other value.
\<close>

theorem listening_iff_in:
  "(listening (fold set_iotype vals (VariableTree_init io :: 'a vartree))
      = (iotype (fold set_iotype vals (VariableTree_init io :: 'a vartree)) = Some ''in'')) \<and>
   ((\<forall>n\<in>set (nodes t). listening n = (iotype n = Some ''in'')) \<longrightarrow>
    (\<forall>n\<in>set (nodes (fold set_iotype vals t)). listening n = (iotype n = Some ''in''))) \<and>
   (val \<noteq> iotype t \<longrightarrow> listening (set_iotype val t) = (val = Some ''in''))"
proof (intro conjI impI)
  have "\<forall>n\<in>set (nodes (VariableTree_init io :: 'a vartree)).
          listening n = (iotype n = Some ''in'')"
    by (simp add: VariableTree_init_def nodes_def)
  from hook_fold_set_iotype[OF this]
  show "listening (fold set_iotype vals (VariableTree_init io :: 'a vartree))
      = (iotype (fold set_iotype vals (VariableTree_init io :: 'a vartree)) = Some ''in'')"
    by (simp add: nodes_def)
next
  assume "\<forall>n\<in>set (nodes t). listening n = (iotype n = Some ''in'')"
  then show "\<forall>n\<in>set (nodes (fold set_iotype vals t)). listening n = (iotype n = Some ''in'')"
    by (rule hook_fold_set_iotype)
next
  assume "val \<noteq> iotype t"
  then show "listening (set_iotype val t) = (val = Some ''in'')"
    by (rule listening_set_iotype)
qed

theorem listening_iff_in_witness:
  "list_all (\<lambda>n. listening n = (iotype n = Some ''in'')) (nodes mixed_tree) \<and>
   list_all (\<lambda>n. listening n = (iotype n = Some ''in''))
     (nodes (fold set_iotype [None, Some ''in'', Some ''out'', Some ''in''] mixed_tree)) \<and>
   Some ''in'' \<noteq> iotype mixed_tree \<and> listening (set_iotype (Some ''in'') mixed_tree) \<and>
   None \<noteq> iotype mixed_tree \<and> \<not> listening (set_iotype None mixed_tree)"
proof -
  have h: "\<forall>n\<in>set (nodes mixed_tree). listening n = (iotype n = Some ''in'')"
    by (simp add: mixed_tree_def nodes_def)
  have ne: "Some ''in'' \<noteq> iotype mixed_tree" "None \<noteq> iotype mixed_tree"
    by (simp_all add: mixed_tree_def)
  from listening_iff_in[where vals = "[None, Some ''in'', Some ''out'', Some ''in'']"
         and t = mixed_tree and val = "Some ''in''"] h ne
  have a: "(\<forall>n\<in>set (nodes (fold set_iotype [None, Some ''in'', Some ''out'', Some ''in'']
                mixed_tree)).
           listening n = (iotype n = Some ''in'')) \<and>
        listening (set_iotype (Some ''in'') mixed_tree)"
    by blast
  from listening_iff_in[where t = mixed_tree and val = None] ne
  have b: "\<not> listening (set_iotype None mixed_tree)"
    by blast
  from h ne a b show ?thesis unfolding list_all_iff by blast
qed

subsection \<open>Rooting a tree\<close>

text \<open>
  C10. When the parent is a \<^verbatim>\<open>VariableTree\<close>, \<^verbatim>\<open>tree_rooted\<close> assigns the parent's iotype
  to the node, whatever iotype the node had; when the parent is another object whose
  trait of the node's name has a non-empty iotype, it assigns that. This is the
  node's iotype when \<^verbatim>\<open>tree_rooted\<close> returns, provided \<^verbatim>\<open>Container.tree_rooted\<close> keeps
  it.
\<close>

theorem tree_rooted_overwrites:
  assumes "\<forall>s. iotype (node (super_tree_rooted s)) = iotype (node s)"
  shows "(parent self = VarTree n io p \<longrightarrow>
            iotype (node (tree_rooted trait super_tree_rooted self)) = io) \<and>
         (parent self = Component c \<and> trait c (name self) = Some (Some io') \<and> io' \<noteq> [] \<longrightarrow>
            iotype (node (tree_rooted trait super_tree_rooted self)) = Some io')"
  using assms by (simp add: tree_rooted_def iotype_set_iotype)

theorem tree_rooted_overwrites_witness:
  "iotype (node in_node_below_out) = Some ''in'' \<and>
   iotype (node (tree_rooted comp_trait (\<lambda>s. s) in_node_below_out)) = Some ''out'' \<and>
   iotype (node in_node_of_component) = Some ''in'' \<and>
   iotype (node (tree_rooted comp_trait (\<lambda>s. s) in_node_of_component)) = Some ''out''"
proof -
  have h: "\<forall>s :: (nat, string) variable_tree. iotype (node ((\<lambda>s. s) s)) = iotype (node s)"
    by simp
  have a: "parent in_node_below_out = VarTree ''a'' (Some ''out'') (Component ''comp'')"
    "iotype (node in_node_below_out) = Some ''in''"
    by (simp_all add: in_node_below_out_def)
  have b: "parent in_node_of_component = Component ''comp''"
    "comp_trait ''comp'' (name in_node_of_component) = Some (Some ''out'')"
    "iotype (node in_node_of_component) = Some ''in''"
    by (simp_all add: in_node_of_component_def comp_trait_def)
  from tree_rooted_overwrites[OF h, where self = in_node_below_out and trait = comp_trait] a
  have c: "iotype (node (tree_rooted comp_trait (\<lambda>s. s) in_node_below_out)) = Some ''out''"
    by blast
  from tree_rooted_overwrites[OF h, where self = in_node_of_component and trait = comp_trait
         and c = "''comp''" and io' = "''out''"] b
  have d: "iotype (node (tree_rooted comp_trait (\<lambda>s. s) in_node_of_component)) = Some ''out''"
    by simp
  from a b c d show ?thesis by simp
qed

subsection \<open>A change below an input\<close>

lemma walk_up_last:
  "walk_up vt p = (v, q) \<Longrightarrow>
     v = last (vt # tree_names p) \<and>
     (case q of NoneType \<Rightarrow> owner p = None
              | Component c \<Rightarrow> owner p = Some c
              | VarTree n io r \<Rightarrow> False)"
  by (induction vt p arbitrary: v q rule: walk_up.induct) (auto split: container.splits)

text \<open>
  C8, as the source has it. A trait of a node changes whose handler is registered,
  and the trait's name does not start with an underscore. When there is an object
  that is not a \<^verbatim>\<open>VariableTree\<close> above the node's last \<^verbatim>\<open>VariableTree\<close> ancestor, exactly
  one call of \<^verbatim>\<open>_input_trait_modified\<close> is made, on that object, with the name of that
  last ancestor (of the node itself when its parent is no \<^verbatim>\<open>VariableTree\<close>), however
  many trees lie between. When the last ancestor has no parent, no call is made.
\<close>

theorem one_event_for_owner:
  assumes "listening (node self)" and "\<not> startswith nm ''_''"
  shows "trait_changed self nm =
     (case owner (parent self) of
        None \<Rightarrow> []
      | Some c \<Rightarrow> [(c, last (name self # tree_names (parent self)))])"
proof -
  obtain v q where w: "walk_up (name self) (parent self) = (v, q)" by force
  from walk_up_last[OF w] assms show ?thesis
    by (cases q) (simp_all add: trait_changed_def input_trait_modified_def w)
qed

theorem one_event_for_owner_witness:
  "listening (node nested_node) \<and> \<not> startswith ''x'' ''_'' \<and>
   tree_names (parent nested_node) = [''b'', ''a''] \<and>
   trait_changed nested_node ''x'' = [(''comp'', ''a'')]"
proof -
  have h: "listening (node nested_node)" "\<not> startswith ''x'' ''_''"
    by (simp_all add: nested_node_def startswith_def)
  have a: "tree_names (parent nested_node) = [''b'', ''a'']"
    "owner (parent nested_node) = Some ''comp''" "name nested_node = ''c''"
    by (simp_all add: nested_node_def)
  from one_event_for_owner[OF h] h a show ?thesis by simp
qed

text \<open>
  The claim C8 has one call for every such change. \<open>unowned_node\<close> is a registered
  node \<^verbatim>\<open>b\<close> below a tree \<^verbatim>\<open>a\<close> that has no parent; a change of its trait \<^verbatim>\<open>x\<close> makes no
  call.
\<close>

theorem no_owner_no_event_cex:
  "listening (node unowned_node) \<and> \<not> startswith ''x'' ''_'' \<and>
   length (trait_changed unowned_node ''x'') = 0"
  by (simp add: unowned_node_def startswith_def trait_changed_def input_trait_modified_def)


end
